theory Spec2Isabelle
  imports Main "HOL-Library.Multiset"
begin

section \<open>Clash of Commands: the game-state model of game.py\<close>

subsection \<open>Core enums\<close>

datatype CardKind = TROOP | STRATEGEM | AMBUSH

datatype ZoneId = LEFT | CENTER | RIGHT | RESERVE | HQ | SUPPLY

subsection \<open>Data models\<close>

record TroopStats =
  str :: int
  arm :: int
  coh :: int
  speed :: int
  max_ammo :: int

text \<open>
  The three dataclasses deriving from \<^verbatim>\<open>Card\<close> are the three constructors; a test
  \<^verbatim>\<open>isinstance(c, TroopCard)\<close> is a match on the constructor. The fields are, in order,
  id, name, text and then the variant's own fields. The field \<^verbatim>\<open>kind\<close> is overwritten by
  every \<^verbatim>\<open>__post_init__\<close>, so it is a function of the constructor.
\<close>

datatype Card =
    TroopCard string string string TroopStats
  | StrategemCard string string string int
  | AmbushCard string string string int string

fun kind :: "Card \<Rightarrow> CardKind" where
  "kind (TroopCard i n t st) = TROOP"
| "kind (StrategemCard i n t c) = STRATEGEM"
| "kind (AmbushCard i n t c tr) = AMBUSH"

text \<open>\<^verbatim>\<open>isinstance(c, TroopCard)\<close>.\<close>

fun is_TroopCard :: "Card \<Rightarrow> bool" where
  "is_TroopCard (TroopCard i n t st) = True"
| "is_TroopCard (StrategemCard i n t c) = False"
| "is_TroopCard (AmbushCard i n t c tr) = False"

fun card_name :: "Card \<Rightarrow> string" where
  "card_name (TroopCard i n t st) = n"
| "card_name (StrategemCard i n t c) = n"
| "card_name (AmbushCard i n t c tr) = n"

text \<open>
  A unit on the battlefield. The source's fields \<^verbatim>\<open>card\<close> and \<^verbatim>\<open>coh\<close> are named
  \<open>unit_card\<close> and \<open>unit_coh\<close> here (\<open>card\<close> is the cardinality of a set in HOL, and
  \<open>coh\<close> is already the field of the statistics).
\<close>

record Unit =
  unit_card :: Card
  owner :: int
  zone :: ZoneId
  unit_coh :: int
  ammo :: int
  attacked_this_turn :: bool

definition is_alive :: "Unit \<Rightarrow> bool" where
  "is_alive u = (unit_coh u > 0)"

text \<open>The field \<^verbatim>\<open>id\<close> of a zone is \<open>zid\<close> here.\<close>

record Zone =
  zid :: ZoneId
  capacity :: int
  units :: "Unit list"

definition has_space :: "Zone \<Rightarrow> bool" where
  "has_space z = (int (length (units z)) < capacity z)"

record PlayerState =
  pid :: int
  morale :: int
  cp :: int
  deck :: "Card list"
  hand :: "Card list"
  discard :: "Card list"

text \<open>\<^verbatim>\<open>PlayerState(pid=n)\<close>: every other field takes its default.\<close>

definition new_PlayerState :: "int \<Rightarrow> PlayerState" where
  "new_PlayerState n = \<lparr>pid = n, morale = 25, cp = 0, deck = [], hand = [], discard = []\<rparr>"

record Game =
  turn :: int
  active_pid :: int
  zones :: "ZoneId \<rightharpoonup> Zone"
  adj :: "ZoneId \<rightharpoonup> ZoneId list"
  p1 :: PlayerState
  p2 :: PlayerState

datatype error = KeyError

subsection \<open>Helpers\<close>

definition other_pid :: "int \<Rightarrow> int" where
  "other_pid n = (if n = 1 then 2 else 1)"

definition player :: "Game \<Rightarrow> int \<Rightarrow> PlayerState" where
  "player g n = (if n = 1 then p1 g else p2 g)"

text \<open>
  The methods of the engine receive a reference \<^verbatim>\<open>p\<close> to a player object and mutate it
  in place; every caller obtains it as \<^verbatim>\<open>self.player(n)\<close>. The model passes \<open>n\<close>, reads
  the object with \<open>player\<close> and stores the mutated object back with \<open>set_player\<close>.
\<close>

definition set_player :: "Game \<Rightarrow> int \<Rightarrow> PlayerState \<Rightarrow> Game" where
  "set_player g n p = (if n = 1 then g\<lparr>p1 := p\<rparr> else g\<lparr>p2 := p\<rparr>)"

text \<open>\<^verbatim>\<open>self.zones[zid]\<close> raises KeyError for a key that the dictionary lacks.\<close>

definition zone_at :: "Game \<Rightarrow> ZoneId \<Rightarrow> error + Zone" where
  "zone_at g z = (case zones g z of None \<Rightarrow> Inl KeyError | Some zn \<Rightarrow> Inr zn)"

subsection \<open>The win check\<close>

text \<open>
  A method is a function from the state to its result and the state it leaves behind;
  \<^verbatim>\<open>game_over\<close> assigns nothing, so the state it leaves is the one it received.
\<close>

definition game_over :: "Game \<Rightarrow> int option \<times> Game" where
  "game_over g =
     (if morale (p1 g) \<le> 0 then (Some 2, g)
      else if morale (p2 g) \<le> 0 then (Some 1, g)
      else (None, g))"

subsection \<open>The random source and \<^verbatim>\<open>random.shuffle\<close>\<close>

text \<open>
  The module-level random generator is an infinite sequence of raw outcomes, threaded
  through every function that shuffles. \<open>randbelow n\<close> yields a number below \<open>n\<close>
  from the first outcome and leaves the rest of the sequence. \<open>shuffle\<close> is the exchange loop of the standard library:
  \<^verbatim>\<open>for i in reversed(range(1, len(x))): j = randbelow(i + 1); x[i], x[j] = x[j], x[i]\<close>
\<close>

type_synonym rng = "nat \<Rightarrow> nat"

definition randbelow :: "nat \<Rightarrow> rng \<Rightarrow> nat \<times> rng" where
  "randbelow n r = (r 0 mod n, (\<lambda>k. r (Suc k)))"

fun shuffle_from :: "nat \<Rightarrow> 'a list \<Rightarrow> rng \<Rightarrow> 'a list \<times> rng" where
  "shuffle_from 0 xs r = (xs, r)"
| "shuffle_from (Suc i) xs r =
     (case randbelow (Suc i + 1) r of
        (j, r') \<Rightarrow> shuffle_from i (xs[Suc i := xs ! j, j := xs ! Suc i]) r')"

definition shuffle :: "'a list \<Rightarrow> rng \<Rightarrow> 'a list \<times> rng" where
  "shuffle xs r = shuffle_from (length xs - 1) xs r"

subsection \<open>Drawing\<close>

text \<open>
  One pass through the body of the loop of \<^verbatim>\<open>_draw\<close>: reshuffle the discard into an
  empty deck, then move the last card of a non-empty deck to the end of the hand.
\<close>

definition reshuffle :: "PlayerState \<Rightarrow> rng \<Rightarrow> PlayerState \<times> rng" where
  "reshuffle p r =
     (if deck p = [] then
        (case shuffle (discard p) r of (d, r') \<Rightarrow> (p\<lparr>deck := d, discard := []\<rparr>, r'))
      else (p, r))"

definition draw_top :: "PlayerState \<Rightarrow> PlayerState" where
  "draw_top p =
     (if deck p \<noteq> [] then p\<lparr>hand := hand p @ [last (deck p)], deck := butlast (deck p)\<rparr>
      else p)"

definition draw_one :: "PlayerState \<Rightarrow> rng \<Rightarrow> PlayerState \<times> rng" where
  "draw_one p r = (case reshuffle p r of (p', r') \<Rightarrow> (draw_top p', r'))"

fun draw_loop :: "nat \<Rightarrow> PlayerState \<Rightarrow> rng \<Rightarrow> PlayerState \<times> rng" where
  "draw_loop 0 p r = (p, r)"
| "draw_loop (Suc k) p r = (case draw_one p r of (p', r') \<Rightarrow> draw_loop k p' r')"

text \<open>\<^verbatim>\<open>_draw(p, n)\<close>: \<^verbatim>\<open>range(n)\<close> is empty for a negative \<open>n\<close>.\<close>

definition draw :: "PlayerState \<Rightarrow> int \<Rightarrow> rng \<Rightarrow> PlayerState \<times> rng" where
  "draw p n r = draw_loop (nat n) p r"

subsection \<open>Phases\<close>

definition reset_attacks :: "int \<Rightarrow> Zone \<Rightarrow> Zone" where
  "reset_attacks n z =
     z\<lparr>units := map (\<lambda>u. if owner u = n then u\<lparr>attacked_this_turn := False\<rparr> else u) (units z)\<rparr>"

definition start_phase :: "Game \<Rightarrow> int \<Rightarrow> rng \<Rightarrow> Game \<times> rng" where
  "start_phase g n r =
     (let p = player g n;
          p' = p\<lparr>cp := min 5 (cp p + 2)\<rparr>
      in case draw p' 1 r of
           (p'', r') \<Rightarrow>
             (let g' = set_player g n p''
              in (g'\<lparr>zones := (\<lambda>k. map_option (reset_attacks (pid p'')) (zones g' k))\<rparr>, r')))"

text \<open>\<^verbatim>\<open>xs.pop(i)\<close> for an index within the list.\<close>

definition pop_at :: "nat \<Rightarrow> 'a list \<Rightarrow> 'a list" where
  "pop_at i xs = take i xs @ drop (Suc i) xs"

definition new_unit :: "Card \<Rightarrow> TroopStats \<Rightarrow> int \<Rightarrow> ZoneId \<Rightarrow> Unit" where
  "new_unit c st own z =
     \<lparr>unit_card = c, owner = own, zone = z, unit_coh = coh st, ammo = max_ammo st,
      attacked_this_turn = False\<rparr>"

text \<open>
  The result is the value returned (or the exception raised) together with the state
  the call leaves behind.
\<close>

definition deploy_troop_from_hand ::
  "Game \<Rightarrow> int \<Rightarrow> int \<Rightarrow> ZoneId \<Rightarrow> (error + bool) \<times> Game" where
  "deploy_troop_from_hand g n hand_index target_zone =
     (let p = player g n in
      if hand_index < 0 \<or> hand_index \<ge> int (length (hand p)) then (Inr False, g)
      else
        (case hand p ! nat hand_index of
           TroopCard i nm t st \<Rightarrow>
             (case zone_at g target_zone of
                Inl e \<Rightarrow> (Inl e, g)
              | Inr z \<Rightarrow>
                  if \<not> has_space z then (Inr False, g)
                  else
                    (let c = TroopCard i nm t st;
                         u = new_unit c st (pid p) target_zone;
                         g' = g\<lparr>zones := (zones g)(target_zone \<mapsto> z\<lparr>units := units z @ [u]\<rparr>)\<rparr>;
                         p' = p\<lparr>discard := discard p @ [c]\<rparr>;
                         p'' = p'\<lparr>hand := pop_at (nat hand_index) (hand p')\<rparr>
                     in (Inr True, set_player g' n p'')))
         | StrategemCard i nm t c \<Rightarrow> (Inr False, g)
         | AmbushCard i nm t c tr \<Rightarrow> (Inr False, g)))"

text \<open>The last statements of \<^verbatim>\<open>play_one_turn\<close>, under its comment \<^verbatim>\<open># swap player\<close>.\<close>

definition swap_player :: "Game \<Rightarrow> Game" where
  "swap_player g =
     (let g' = g\<lparr>active_pid := other_pid (active_pid g)\<rparr>
      in if active_pid g' = 1 then g'\<lparr>turn := turn g' + 1\<rparr> else g')"

subsection \<open>Setup\<close>

definition marines :: Card where
  "marines = TroopCard ''troop_marines'' ''Tactical Marines''
     ''+1 STR if another Infantry is in zone (not implemented yet).''
     \<lparr>str = 6, arm = 4, coh = 6, speed = 1, max_ammo = 0\<rparr>"

definition scouts :: Card where
  "scouts = TroopCard ''troop_scouts'' ''Scouts''
     ''Ranged unit (ammo 2, range 1 later).''
     \<lparr>str = 4, arm = 2, coh = 4, speed = 1, max_ammo = 2\<rparr>"

definition cavalry :: Card where
  "cavalry = TroopCard ''troop_cavalry'' ''Assault Cavalry''
     ''Fast movers.''
     \<lparr>str = 5, arm = 3, coh = 5, speed = 2, max_ammo = 0\<rparr>"

definition heavy :: Card where
  "heavy = TroopCard ''troop_heavy'' ''Heavy Weapons Team''
     ''Artillery-ish (ammo 2 later).''
     \<lparr>str = 7, arm = 2, coh = 4, speed = 1, max_ammo = 2\<rparr>"

definition elite :: Card where
  "elite = TroopCard ''troop_elite'' ''Elite Veterans''
     ''Hard hitters.''
     \<lparr>str = 7, arm = 4, coh = 6, speed = 1, max_ammo = 0\<rparr>"

definition suppression :: Card where
  "suppression = StrategemCard ''strat_suppression'' ''Suppressive Fire''
     ''Choose a zone; enemy can't move next turn (not implemented yet).'' 2"

definition march :: Card where
  "march = StrategemCard ''strat_march'' ''Forced March''
     ''One troop gets +1 move this turn (not implemented yet).'' 1"

definition dig_in :: Card where
  "dig_in = StrategemCard ''strat_dig_in'' ''Dig In''
     ''Target zone gets +1 ARM for your troops this turn (not implemented yet).'' 1"

definition killzone :: Card where
  "killzone = AmbushCard ''amb_killzone'' ''Prepared Killzone''
     ''When enemy enters zone: deal 3 damage to one troop (not implemented yet).'' 1 ''ON_ENTER''"

definition booby :: Card where
  "booby = AmbushCard ''amb_booby'' ''Booby Traps''
     ''When enemy enters zone: deal 2 damage (not implemented yet).'' 0 ''ON_ENTER''"

definition base_deck :: "Card list" where
  "base_deck =
     [marines, marines, scouts, scouts, cavalry, cavalry, heavy, heavy, elite, elite,
      suppression, march, dig_in, killzone, booby]"

definition init_sample_decks :: "Game \<Rightarrow> rng \<Rightarrow> Game \<times> rng" where
  "init_sample_decks g r =
     (case shuffle (base_deck @ base_deck) r of
        (d1, r1) \<Rightarrow>
          (case shuffle (base_deck @ base_deck) r1 of
             (d2, r2) \<Rightarrow> (g\<lparr>p1 := (p1 g)\<lparr>deck := d1\<rparr>, p2 := (p2 g)\<lparr>deck := d2\<rparr>\<rparr>, r2)))"

definition draw_starting_hands :: "Game \<Rightarrow> rng \<Rightarrow> Game \<times> rng" where
  "draw_starting_hands g r =
     (case draw (p1 g) 5 r of
        (q1, r1) \<Rightarrow>
          (case draw (p2 (g\<lparr>p1 := q1\<rparr>)) 5 r1 of
             (q2, r2) \<Rightarrow> (g\<lparr>p1 := q1, p2 := q2\<rparr>, r2)))"

definition new_zone :: "ZoneId \<Rightarrow> int \<Rightarrow> Zone" where
  "new_zone z c = \<lparr>zid = z, capacity = c, units = []\<rparr>"

definition initial_zones :: "ZoneId \<rightharpoonup> Zone" where
  "initial_zones =
     [LEFT \<mapsto> new_zone LEFT 3, CENTER \<mapsto> new_zone CENTER 3, RIGHT \<mapsto> new_zone RIGHT 3,
      RESERVE \<mapsto> new_zone RESERVE 4, HQ \<mapsto> new_zone HQ 2, SUPPLY \<mapsto> new_zone SUPPLY 2]"

definition initial_adj :: "ZoneId \<rightharpoonup> ZoneId list" where
  "initial_adj =
     [HQ \<mapsto> [RESERVE], SUPPLY \<mapsto> [RESERVE],
      RESERVE \<mapsto> [HQ, SUPPLY, LEFT, CENTER, RIGHT],
      LEFT \<mapsto> [RESERVE, CENTER], CENTER \<mapsto> [RESERVE, LEFT, RIGHT],
      RIGHT \<mapsto> [RESERVE, CENTER]]"

text \<open>\<^verbatim>\<open>Game.__init__\<close>.\<close>

definition new_Game :: "rng \<Rightarrow> Game \<times> rng" where
  "new_Game r =
     (let g = \<lparr>turn = 1, active_pid = 1, zones = initial_zones, adj = initial_adj,
               p1 = new_PlayerState 1, p2 = new_PlayerState 2\<rparr>
      in case init_sample_decks g r of (g', r') \<Rightarrow> draw_starting_hands g' r')"

subsection \<open>Properties of states\<close>

text \<open>The cards a player owns: everything in the deck, the hand and the discard.\<close>

definition cards_of :: "PlayerState \<Rightarrow> Card multiset" where
  "cards_of p = mset (deck p) + mset (hand p) + mset (discard p)"

text \<open>No zone of the dictionary holds more units than its capacity.\<close>

definition zones_ok :: "Game \<Rightarrow> bool" where
  "zones_ok g = (\<forall>z zn. zones g z = Some zn \<longrightarrow> int (length (units zn)) \<le> capacity zn)"

text \<open>\<^verbatim>\<open>self._draw(self.player(n), k)\<close> as an operation on the game.\<close>

definition draw_for :: "Game \<Rightarrow> int \<Rightarrow> int \<Rightarrow> rng \<Rightarrow> Game \<times> rng" where
  "draw_for g n k r = (case draw (player g n) k r of (p', r') \<Rightarrow> (set_player g n p', r'))"

text \<open>
  The states the engine can be in: a newly constructed game, and whatever the
  operations make of a state, with any arguments and any random source.
\<close>

inductive reachable :: "Game \<Rightarrow> bool" where
  r_new: "reachable (fst (new_Game r))"
| r_start: "reachable g \<Longrightarrow> reachable (fst (start_phase g n r))"
| r_draw: "reachable g \<Longrightarrow> reachable (fst (draw_for g n k r))"
| r_deploy: "reachable g \<Longrightarrow> reachable (snd (deploy_troop_from_hand g n i z))"
| r_swap: "reachable g \<Longrightarrow> reachable (swap_player g)"

subsection \<open>Sample states\<close>

definition zeros :: rng where
  "zeros = (\<lambda>k. 0)"

definition sample_player :: PlayerState where
  "sample_player =
     \<lparr>pid = 1, morale = 25, cp = 4, deck = [booby, scouts], hand = [marines, march],
      discard = [dig_in]\<rparr>"

definition sample_game :: Game where
  "sample_game =
     \<lparr>turn = 1, active_pid = 1, zones = initial_zones, adj = initial_adj,
      p1 = sample_player, p2 = new_PlayerState 2\<rparr>"

definition marines_in_hq :: Unit where
  "marines_in_hq =
     \<lparr>unit_card = marines, owner = 1, zone = HQ, unit_coh = 6, ammo = 0,
      attacked_this_turn = False\<rparr>"

text \<open>The sample game with the headquarters full.\<close>

definition crowded_game :: Game where
  "crowded_game =
     sample_game\<lparr>zones := initial_zones(HQ \<mapsto>
       \<lparr>zid = HQ, capacity = 2, units = [marines_in_hq, marines_in_hq]\<rparr>)\<rparr>"

text \<open>A state in which the morale of both players is spent.\<close>

definition both_down :: Game where
  "both_down =
     \<lparr>turn = 7, active_pid = 1, zones = initial_zones, adj = initial_adj,
      p1 = (new_PlayerState 1)\<lparr>morale := 0\<rparr>, p2 = (new_PlayerState 2)\<lparr>morale := - 3\<rparr>\<rparr>"

text \<open>A player whose deck is used up and whose discard holds three cards.\<close>

definition spent_player :: PlayerState where
  "spent_player =
     \<lparr>pid = 2, morale = 25, cp = 0, deck = [], hand = [elite],
      discard = [marines, march, heavy]\<rparr>"

section \<open>Auxiliary facts\<close>

subsection \<open>Shuffling permutes\<close>

lemma shuffle_from_mset: "i < length xs \<Longrightarrow> mset (fst (shuffle_from i xs r)) = mset xs"
proof (induction i arbitrary: xs r)
  case 0
  then show ?case by simp
next
  case (Suc i)
  let ?j = "r 0 mod (Suc i + 1)"
  let ?ys = "xs[Suc i := xs ! ?j, ?j := xs ! Suc i]"
  have "?j < Suc i + 1" by simp
  with Suc.prems have j: "?j < length xs" by linarith
  have "mset ?ys = mset xs"
    using Suc.prems j by (simp add: mset_swap)
  moreover have "mset (fst (shuffle_from i ?ys (\<lambda>k. r (Suc k)))) = mset ?ys"
    using Suc.prems by (intro Suc.IH) simp
  ultimately show ?case by (simp add: randbelow_def)
qed

lemma shuffle_mset: "mset (fst (shuffle xs r)) = mset xs"
  by (cases xs) (simp_all add: shuffle_def shuffle_from_mset)

lemma shuffle_Nil: "shuffle [] r = ([], r)"
  by (simp add: shuffle_def)

subsection \<open>Drawing\<close>

lemma reshuffle_fixed:
  "pid (fst (reshuffle p r)) = pid p" "morale (fst (reshuffle p r)) = morale p"
  "cp (fst (reshuffle p r)) = cp p" "hand (fst (reshuffle p r)) = hand p"
  by (simp_all add: reshuffle_def case_prod_beta)

lemma draw_top_fixed:
  "pid (draw_top p) = pid p" "morale (draw_top p) = morale p"
  "cp (draw_top p) = cp p" "discard (draw_top p) = discard p"
  by (simp_all add: draw_top_def)

lemma draw_one_fixed:
  "pid (fst (draw_one p r)) = pid p" "morale (fst (draw_one p r)) = morale p"
  "cp (fst (draw_one p r)) = cp p"
  by (simp_all add: draw_one_def case_prod_beta draw_top_fixed reshuffle_fixed)

lemma draw_loop_fixed:
  "pid (fst (draw_loop k p r)) = pid p \<and> morale (fst (draw_loop k p r)) = morale p
   \<and> cp (fst (draw_loop k p r)) = cp p"
proof (induction k arbitrary: p r)
  case 0
  show ?case by simp
next
  case (Suc k)
  show ?case
    using Suc.IH[of "fst (draw_one p r)" "snd (draw_one p r)"]
    by (simp add: case_prod_beta draw_one_fixed)
qed

lemma draw_fixed:
  "pid (fst (draw p n r)) = pid p" "morale (fst (draw p n r)) = morale p"
  "cp (fst (draw p n r)) = cp p"
  using draw_loop_fixed[of "nat n" p r] by (simp_all add: draw_def)

lemma reshuffle_cards: "cards_of (fst (reshuffle p r)) = cards_of p"
  using shuffle_mset[of "discard p" r]
  by (simp add: reshuffle_def cards_of_def case_prod_beta)

lemma mset_butlast_last: "xs \<noteq> [] \<Longrightarrow> mset (butlast xs) + {#last xs#} = mset xs"
proof -
  assume "xs \<noteq> []"
  then have "mset xs = mset (butlast xs @ [last xs])" by simp
  then show ?thesis by simp
qed

lemma draw_top_cards: "cards_of (draw_top p) = cards_of p"
proof (cases "deck p = []")
  case True
  then show ?thesis by (simp add: draw_top_def)
next
  case False
  then show ?thesis
    using mset_butlast_last[of "deck p"] by (simp add: draw_top_def cards_of_def)
qed

lemma draw_one_cards: "cards_of (fst (draw_one p r)) = cards_of p"
  by (simp add: draw_one_def draw_top_cards reshuffle_cards case_prod_beta)

lemma draw_loop_cards: "cards_of (fst (draw_loop k p r)) = cards_of p"
proof (induction k arbitrary: p r)
  case 0
  show ?case by simp
next
  case (Suc k)
  show ?case
    using Suc.IH[of "fst (draw_one p r)" "snd (draw_one p r)"]
    by (simp add: case_prod_beta draw_one_cards)
qed

lemma draw_cards: "cards_of (fst (draw p n r)) = cards_of p"
  by (simp add: draw_def draw_loop_cards)

lemma draw_one_from_deck:
  "deck p \<noteq> [] \<Longrightarrow>
   draw_one p r = (p\<lparr>hand := hand p @ [last (deck p)], deck := butlast (deck p)\<rparr>, r)"
  by (simp add: draw_one_def reshuffle_def draw_top_def)

lemma reshuffle_empty_deck:
  "deck p = [] \<Longrightarrow>
   reshuffle p r = (p\<lparr>deck := fst (shuffle (discard p) r), discard := []\<rparr>, snd (shuffle (discard p) r))"
  by (simp add: reshuffle_def case_prod_beta)

lemma draw_one_nothing_left:
  assumes "deck p = []" "discard p = []"
  shows "draw_one p r = (p, r)"
proof -
  have "p\<lparr>deck := [], discard := []\<rparr> = p" using assms by (cases p) simp
  then show ?thesis using assms
    by (simp add: draw_one_def reshuffle_def shuffle_Nil draw_top_def)
qed

lemma draw_loop_nothing_left:
  "deck p = [] \<Longrightarrow> discard p = [] \<Longrightarrow> draw_loop k p r = (p, r)"
  by (induction k) (simp_all add: draw_one_nothing_left)

lemma draw_one_after_reshuffle:
  assumes "deck p = []" "discard p \<noteq> []"
  shows "\<exists>d. mset d = mset (discard p) \<and> d \<noteq> [] \<and>
           fst (reshuffle p r) = p\<lparr>deck := d, discard := []\<rparr> \<and>
           fst (draw_one p r) = p\<lparr>deck := butlast d, discard := [], hand := hand p @ [last d]\<rparr>"
proof -
  let ?d = "fst (shuffle (discard p) r)"
  have m: "mset ?d = mset (discard p)" by (rule shuffle_mset)
  then have ne: "?d \<noteq> []" using assms(2) by (metis mset_zero_iff)
  have "fst (reshuffle p r) = p\<lparr>deck := ?d, discard := []\<rparr>"
    using assms(1) by (simp add: reshuffle_empty_deck)
  moreover have "fst (draw_one p r) = p\<lparr>deck := butlast ?d, discard := [], hand := hand p @ [last ?d]\<rparr>"
    using assms(1) ne by (simp add: draw_one_def reshuffle_empty_deck draw_top_def)
  ultimately show ?thesis using m ne by blast
qed

subsection \<open>Reading a game after a player is stored\<close>

lemma set_player_fields:
  "zones (set_player g n p) = zones g" "adj (set_player g n p) = adj g"
  "turn (set_player g n p) = turn g" "active_pid (set_player g n p) = active_pid g"
  "p1 (set_player g n p) = (if n = 1 then p else p1 g)"
  "p2 (set_player g n p) = (if n = 1 then p2 g else p)"
  "player (set_player g n p) n = p"
  by (simp_all add: set_player_def player_def)

subsection \<open>The start phase\<close>

lemma start_phase_zones:
  "zones (fst (start_phase g n r)) z = map_option (reset_attacks (pid (player g n))) (zones g z)"
  by (simp add: start_phase_def Let_def case_prod_beta set_player_fields draw_fixed)

lemma start_phase_p1:
  "p1 (fst (start_phase g n r)) =
     (if n = 1 then fst (draw ((p1 g)\<lparr>cp := min 5 (cp (p1 g) + 2)\<rparr>) 1 r) else p1 g)"
  by (simp add: start_phase_def Let_def case_prod_beta set_player_fields player_def)

lemma start_phase_p2:
  "p2 (fst (start_phase g n r)) =
     (if n = 1 then p2 g else fst (draw ((p2 g)\<lparr>cp := min 5 (cp (p2 g) + 2)\<rparr>) 1 r))"
  by (simp add: start_phase_def Let_def case_prod_beta set_player_fields player_def)

lemma start_phase_player:
  "player (fst (start_phase g n r)) n =
     fst (draw ((player g n)\<lparr>cp := min 5 (cp (player g n) + 2)\<rparr>) 1 r)"
  by (simp add: player_def start_phase_p1 start_phase_p2)

lemma reset_attacks_size:
  "length (units (reset_attacks n z)) = length (units z)"
  "capacity (reset_attacks n z) = capacity z"
  by (simp_all add: reset_attacks_def)

lemma start_phase_zones_ok: "zones_ok g \<Longrightarrow> zones_ok (fst (start_phase g n r))"
  by (auto simp: zones_ok_def start_phase_zones reset_attacks_size)

subsection \<open>Drawing for a player of the game\<close>

lemma draw_for_fields:
  "zones (fst (draw_for g n k r)) = zones g"
  "p1 (fst (draw_for g n k r)) = (if n = 1 then fst (draw (p1 g) k r) else p1 g)"
  "p2 (fst (draw_for g n k r)) = (if n = 1 then p2 g else fst (draw (p2 g) k r))"
  by (simp_all add: draw_for_def case_prod_beta set_player_fields player_def)

subsection \<open>Deployment\<close>

lemma mset_pop_at: "i < length xs \<Longrightarrow> mset (pop_at i xs) + {#xs ! i#} = mset xs"
proof -
  assume "i < length xs"
  then have "xs = take i xs @ xs ! i # drop (Suc i) xs" by (rule id_take_nth_drop)
  then have "mset xs = mset (take i xs @ xs ! i # drop (Suc i) xs)" by simp
  then show ?thesis by (simp add: pop_at_def)
qed

text \<open>The four ways a deployment ends.\<close>

lemma deploy_bad_index:
  "hand_index < 0 \<or> hand_index \<ge> int (length (hand (player g n))) \<Longrightarrow>
   deploy_troop_from_hand g n hand_index z = (Inr False, g)"
  by (simp add: deploy_troop_from_hand_def Let_def)

lemma deploy_not_troop:
  "0 \<le> hand_index \<Longrightarrow> hand_index < int (length (hand (player g n))) \<Longrightarrow>
   \<not> is_TroopCard (hand (player g n) ! nat hand_index) \<Longrightarrow>
   deploy_troop_from_hand g n hand_index z = (Inr False, g)"
  by (auto simp: deploy_troop_from_hand_def Let_def split: Card.splits)

lemma deploy_no_zone:
  "0 \<le> hand_index \<Longrightarrow> hand_index < int (length (hand (player g n))) \<Longrightarrow>
   hand (player g n) ! nat hand_index = TroopCard i nm t st \<Longrightarrow>
   zones g z = None \<Longrightarrow>
   deploy_troop_from_hand g n hand_index z = (Inl KeyError, g)"
  by (simp add: deploy_troop_from_hand_def Let_def zone_at_def)

lemma deploy_full:
  "0 \<le> hand_index \<Longrightarrow> hand_index < int (length (hand (player g n))) \<Longrightarrow>
   hand (player g n) ! nat hand_index = TroopCard i nm t st \<Longrightarrow>
   zones g z = Some zn \<Longrightarrow> \<not> has_space zn \<Longrightarrow>
   deploy_troop_from_hand g n hand_index z = (Inr False, g)"
  by (simp add: deploy_troop_from_hand_def Let_def zone_at_def)

lemma deploy_done:
  "0 \<le> hand_index \<Longrightarrow> hand_index < int (length (hand (player g n))) \<Longrightarrow>
   hand (player g n) ! nat hand_index = TroopCard i nm t st \<Longrightarrow>
   zones g z = Some zn \<Longrightarrow> has_space zn \<Longrightarrow>
   deploy_troop_from_hand g n hand_index z =
     (Inr True,
      set_player
        (g\<lparr>zones := (zones g)(z \<mapsto>
             zn\<lparr>units := units zn @ [new_unit (TroopCard i nm t st) st (pid (player g n)) z]\<rparr>)\<rparr>)
        n
        ((player g n)\<lparr>discard := discard (player g n) @ [TroopCard i nm t st],
                      hand := pop_at (nat hand_index) (hand (player g n))\<rparr>))"
  by (simp add: deploy_troop_from_hand_def Let_def zone_at_def)

text \<open>Every deployment is one of the four.\<close>

lemma deploy_cases:
  obtains
    (failed) "deploy_troop_from_hand g n hand_index z = (Inr False, g)"
  | (raised) "deploy_troop_from_hand g n hand_index z = (Inl KeyError, g)"
  | (deployed) i nm t st zn where
      "0 \<le> hand_index" "hand_index < int (length (hand (player g n)))"
      "hand (player g n) ! nat hand_index = TroopCard i nm t st"
      "zones g z = Some zn" "has_space zn"
      "deploy_troop_from_hand g n hand_index z =
        (Inr True,
         set_player
           (g\<lparr>zones := (zones g)(z \<mapsto>
                zn\<lparr>units := units zn @ [new_unit (TroopCard i nm t st) st (pid (player g n)) z]\<rparr>)\<rparr>)
           n
           ((player g n)\<lparr>discard := discard (player g n) @ [TroopCard i nm t st],
                         hand := pop_at (nat hand_index) (hand (player g n))\<rparr>))"
proof (cases "hand_index < 0 \<or> hand_index \<ge> int (length (hand (player g n)))")
  case True
  then show ?thesis using failed deploy_bad_index by blast
next
  case False
  then have b: "0 \<le> hand_index" "hand_index < int (length (hand (player g n)))" by auto
  show ?thesis
  proof (cases "hand (player g n) ! nat hand_index")
    case (TroopCard i nm t st)
    show ?thesis
    proof (cases "zones g z")
      case None
      then show ?thesis using raised deploy_no_zone[OF b TroopCard] by blast
    next
      case (Some zn)
      show ?thesis
      proof (cases "has_space zn")
        case True
        then show ?thesis using deployed[OF b TroopCard Some True] deploy_done[OF b TroopCard Some True] by blast
      next
        case False
        then show ?thesis using failed deploy_full[OF b TroopCard Some False] by blast
      qed
    qed
  next
    case (StrategemCard i nm t c)
    then have "\<not> is_TroopCard (hand (player g n) ! nat hand_index)" by simp
    then show ?thesis using failed deploy_not_troop[OF b] by blast
  next
    case (AmbushCard i nm t c tr)
    then have "\<not> is_TroopCard (hand (player g n) ! nat hand_index)" by simp
    then show ?thesis using failed deploy_not_troop[OF b] by blast
  qed
qed

lemma deploy_zones_ok:
  assumes "zones_ok g"
  shows "zones_ok (snd (deploy_troop_from_hand g n hand_index z))"
proof (cases rule: deploy_cases[of g n hand_index z])
  case failed
  then show ?thesis using assms by simp
next
  case raised
  then show ?thesis using assms by simp
next
  case (deployed i nm t st zn)
  have "int (length (units zn)) + 1 \<le> capacity zn"
    using deployed(5) by (simp add: has_space_def)
  then show ?thesis
    using assms deployed(4) by (auto simp: deployed(6) zones_ok_def set_player_fields)
qed

lemma deploy_cards:
  "cards_of (p1 (snd (deploy_troop_from_hand g n hand_index z))) = cards_of (p1 g)
   \<and> cards_of (p2 (snd (deploy_troop_from_hand g n hand_index z))) = cards_of (p2 g)"
proof (cases rule: deploy_cases[of g n hand_index z])
  case failed
  then show ?thesis by simp
next
  case raised
  then show ?thesis by simp
next
  case (deployed i nm t st zn)
  let ?p = "player g n"
  have "nat hand_index < length (hand ?p)" using deployed(1,2) by linarith
  then have "mset (pop_at (nat hand_index) (hand ?p)) + {#TroopCard i nm t st#} = mset (hand ?p)"
    using mset_pop_at[of "nat hand_index" "hand ?p"] deployed(3) by simp
  then have "cards_of (?p\<lparr>discard := discard ?p @ [TroopCard i nm t st],
                      hand := pop_at (nat hand_index) (hand ?p)\<rparr>) = cards_of ?p"
    by (simp add: cards_of_def)
  then show ?thesis
    unfolding deployed(6) by (auto simp: set_player_fields player_def)
qed

lemma deploy_morale:
  "morale (p1 (snd (deploy_troop_from_hand g n hand_index z))) = morale (p1 g)
   \<and> morale (p2 (snd (deploy_troop_from_hand g n hand_index z))) = morale (p2 g)"
proof (cases rule: deploy_cases[of g n hand_index z])
  case failed
  then show ?thesis by simp
next
  case raised
  then show ?thesis by simp
next
  case (deployed i nm t st zn)
  then show ?thesis
    by (simp add: deployed(6) set_player_fields player_def)
qed

subsection \<open>Construction\<close>

lemma init_sample_decks_fields:
  "zones (fst (init_sample_decks g r)) = zones g"
  "turn (fst (init_sample_decks g r)) = turn g"
  "active_pid (fst (init_sample_decks g r)) = active_pid g"
  "p1 (fst (init_sample_decks g r)) = (p1 g)\<lparr>deck := fst (shuffle (base_deck @ base_deck) r)\<rparr>"
  "p2 (fst (init_sample_decks g r)) =
     (p2 g)\<lparr>deck := fst (shuffle (base_deck @ base_deck) (snd (shuffle (base_deck @ base_deck) r)))\<rparr>"
  by (simp_all add: init_sample_decks_def case_prod_beta)

lemma draw_starting_hands_fields:
  "zones (fst (draw_starting_hands g r)) = zones g"
  "turn (fst (draw_starting_hands g r)) = turn g"
  "active_pid (fst (draw_starting_hands g r)) = active_pid g"
  "p1 (fst (draw_starting_hands g r)) = fst (draw (p1 g) 5 r)"
  "p2 (fst (draw_starting_hands g r)) = fst (draw (p2 g) 5 (snd (draw (p1 g) 5 r)))"
  by (simp_all add: draw_starting_hands_def case_prod_beta)

lemma new_Game_fields:
  "zones (fst (new_Game r)) = initial_zones"
  "turn (fst (new_Game r)) = 1"
  "active_pid (fst (new_Game r)) = 1"
  by (simp_all add: new_Game_def Let_def case_prod_beta draw_starting_hands_fields
        init_sample_decks_fields)

lemma new_Game_players:
  "\<exists>d r'. mset d = mset (base_deck @ base_deck)
      \<and> p1 (fst (new_Game r)) = fst (draw ((new_PlayerState 1)\<lparr>deck := d\<rparr>) 5 r')"
  "\<exists>d r'. mset d = mset (base_deck @ base_deck)
      \<and> p2 (fst (new_Game r)) = fst (draw ((new_PlayerState 2)\<lparr>deck := d\<rparr>) 5 r')"
proof -
  let ?g = "\<lparr>turn = 1, active_pid = 1, zones = initial_zones, adj = initial_adj,
             p1 = new_PlayerState 1, p2 = new_PlayerState 2\<rparr>"
  let ?d1 = "fst (shuffle (base_deck @ base_deck) r)"
  let ?r1 = "snd (shuffle (base_deck @ base_deck) r)"
  let ?d2 = "fst (shuffle (base_deck @ base_deck) ?r1)"
  let ?g' = "fst (init_sample_decks ?g r)"
  let ?r' = "snd (init_sample_decks ?g r)"
  have "p1 (fst (new_Game r)) = fst (draw ((new_PlayerState 1)\<lparr>deck := ?d1\<rparr>) 5 ?r')"
    by (simp add: new_Game_def Let_def case_prod_beta draw_starting_hands_fields
          init_sample_decks_fields)
  then show "\<exists>d r'. mset d = mset (base_deck @ base_deck)
      \<and> p1 (fst (new_Game r)) = fst (draw ((new_PlayerState 1)\<lparr>deck := d\<rparr>) 5 r')"
    using shuffle_mset[of "base_deck @ base_deck" r] by blast
  have "p2 (fst (new_Game r)) =
          fst (draw ((new_PlayerState 2)\<lparr>deck := ?d2\<rparr>) 5 (snd (draw (p1 ?g') 5 ?r')))"
    by (simp add: new_Game_def Let_def case_prod_beta draw_starting_hands_fields
          init_sample_decks_fields)
  then show "\<exists>d r'. mset d = mset (base_deck @ base_deck)
      \<and> p2 (fst (new_Game r)) = fst (draw ((new_PlayerState 2)\<lparr>deck := d\<rparr>) 5 r')"
    using shuffle_mset[of "base_deck @ base_deck" ?r1] by blast
qed

lemma new_Game_cards:
  "cards_of (p1 (fst (new_Game r))) = mset (base_deck @ base_deck)"
  "cards_of (p2 (fst (new_Game r))) = mset (base_deck @ base_deck)"
proof -
  obtain d r' where "mset d = mset (base_deck @ base_deck)"
    "p1 (fst (new_Game r)) = fst (draw ((new_PlayerState 1)\<lparr>deck := d\<rparr>) 5 r')"
    using new_Game_players(1) by blast
  then have "cards_of (p1 (fst (new_Game r))) = cards_of ((new_PlayerState 1)\<lparr>deck := d\<rparr>)"
    and "cards_of ((new_PlayerState 1)\<lparr>deck := d\<rparr>) = mset (base_deck @ base_deck)"
    by (simp_all add: draw_cards) (simp add: cards_of_def new_PlayerState_def)
  then show "cards_of (p1 (fst (new_Game r))) = mset (base_deck @ base_deck)"
    by simp
  obtain d r' where "mset d = mset (base_deck @ base_deck)"
    "p2 (fst (new_Game r)) = fst (draw ((new_PlayerState 2)\<lparr>deck := d\<rparr>) 5 r')"
    using new_Game_players(2) by blast
  then have "cards_of (p2 (fst (new_Game r))) = cards_of ((new_PlayerState 2)\<lparr>deck := d\<rparr>)"
    and "cards_of ((new_PlayerState 2)\<lparr>deck := d\<rparr>) = mset (base_deck @ base_deck)"
    by (simp_all add: draw_cards) (simp add: cards_of_def new_PlayerState_def)
  then show "cards_of (p2 (fst (new_Game r))) = mset (base_deck @ base_deck)"
    by simp
qed

lemma new_Game_morale:
  "morale (p1 (fst (new_Game r))) = 25" "morale (p2 (fst (new_Game r))) = 25"
proof -
  obtain d r' where
    "p1 (fst (new_Game r)) = fst (draw ((new_PlayerState 1)\<lparr>deck := d\<rparr>) 5 r')"
    using new_Game_players(1) by blast
  then show "morale (p1 (fst (new_Game r))) = 25"
    by (simp add: draw_fixed new_PlayerState_def)
  obtain d r' where
    "p2 (fst (new_Game r)) = fst (draw ((new_PlayerState 2)\<lparr>deck := d\<rparr>) 5 r')"
    using new_Game_players(2) by blast
  then show "morale (p2 (fst (new_Game r))) = 25"
    by (simp add: draw_fixed new_PlayerState_def)
qed

lemma initial_zones_ok:
  "initial_zones z = Some zn \<Longrightarrow> int (length (units zn)) \<le> capacity zn"
  by (auto simp: initial_zones_def new_zone_def split: if_splits)

lemma new_Game_zones_ok: "zones_ok (fst (new_Game r))"
  by (simp add: zones_ok_def new_Game_fields initial_zones_ok)

subsection \<open>The swap\<close>

lemma swap_player_fields:
  "zones (swap_player g) = zones g" "p1 (swap_player g) = p1 g" "p2 (swap_player g) = p2 g"
  "active_pid (swap_player g) = other_pid (active_pid g)"
  "turn (swap_player g) = (if other_pid (active_pid g) = 1 then turn g + 1 else turn g)"
  by (simp_all add: swap_player_def Let_def)

subsection \<open>Reachable states\<close>

lemma reachable_zones_ok: "reachable g \<Longrightarrow> zones_ok g"
proof (induction rule: reachable.induct)
  case (r_new r)
  show ?case by (rule new_Game_zones_ok)
next
  case (r_start g n r)
  then show ?case by (simp add: start_phase_zones_ok)
next
  case (r_draw g n k r)
  then show ?case by (simp add: zones_ok_def draw_for_fields)
next
  case (r_deploy g n i z)
  then show ?case by (simp add: deploy_zones_ok)
next
  case (r_swap g)
  then show ?case by (simp add: zones_ok_def swap_player_fields)
qed

lemma reachable_morale: "reachable g \<Longrightarrow> morale (p1 g) = 25 \<and> morale (p2 g) = 25"
proof (induction rule: reachable.induct)
  case (r_new r)
  show ?case by (simp add: new_Game_morale)
next
  case (r_start g n r)
  then show ?case by (simp add: start_phase_p1 start_phase_p2 draw_fixed)
next
  case (r_draw g n k r)
  then show ?case by (simp add: draw_for_fields draw_fixed)
next
  case (r_deploy g n i z)
  then show ?case by (simp add: deploy_morale)
next
  case (r_swap g)
  then show ?case by (simp add: swap_player_fields)
qed

subsection \<open>Cards through the phases\<close>

lemma cards_of_cp: "cards_of (p\<lparr>cp := c\<rparr>) = cards_of p"
  by (simp add: cards_of_def)

lemma start_phase_cards:
  "cards_of (p1 (fst (start_phase g n r))) = cards_of (p1 g)"
  "cards_of (p2 (fst (start_phase g n r))) = cards_of (p2 g)"
  by (simp_all add: start_phase_p1 start_phase_p2 draw_cards cards_of_cp)

lemma reachable_cards:
  "reachable g \<Longrightarrow>
   cards_of (p1 g) = mset (base_deck @ base_deck) \<and> cards_of (p2 g) = mset (base_deck @ base_deck)"
proof (induction rule: reachable.induct)
  case (r_new r)
  show ?case using new_Game_cards by blast
next
  case (r_start g n r)
  then show ?case by (simp only: start_phase_cards)
next
  case (r_draw g n k r)
  then show ?case by (simp add: draw_for_fields draw_cards)
next
  case (r_deploy g n i z)
  then show ?case using deploy_cards[of g n i z] by simp
next
  case (r_swap g)
  then show ?case by (simp add: swap_player_fields)
qed

subsection \<open>What a deployment does to the zones\<close>

lemma deploy_changes_zones:
  assumes "zones (snd (deploy_troop_from_hand g n hand_index z)) \<noteq> zones g"
  shows "\<exists>zn u. zones g z = Some zn \<and> has_space zn
           \<and> zones (snd (deploy_troop_from_hand g n hand_index z))
               = (zones g)(z \<mapsto> zn\<lparr>units := units zn @ [u]\<rparr>)"
proof (cases rule: deploy_cases[of g n hand_index z])
  case failed
  then show ?thesis using assms by simp
next
  case raised
  then show ?thesis using assms by simp
next
  case (deployed i nm t st zn)
  have "zones (snd (deploy_troop_from_hand g n hand_index z))
          = (zones g)(z \<mapsto> zn\<lparr>units := units zn
               @ [new_unit (TroopCard i nm t st) st (pid (player g n)) z]\<rparr>)"
    by (simp add: deployed(6) set_player_fields)
  then show ?thesis using deployed(4,5) by blast
qed

subsection \<open>The sample states\<close>

lemma sample_zones_ok: "zones_ok sample_game"
  by (auto simp: zones_ok_def sample_game_def initial_zones_def new_zone_def split: if_splits)

lemma sample_hq: "zones sample_game HQ = Some (new_zone HQ 2)"
  by (simp add: sample_game_def initial_zones_def)

lemma sample_deploy_zones:
  "zones (snd (deploy_troop_from_hand sample_game 1 0 HQ)) HQ
     = Some \<lparr>zid = HQ, capacity = 2, units = [marines_in_hq]\<rparr>"
  by (simp add: deploy_troop_from_hand_def Let_def player_def sample_game_def sample_player_def
        marines_def zone_at_def initial_zones_def new_zone_def has_space_def new_unit_def
        set_player_def marines_in_hq_def)

lemma sample_reachable:
  "reachable (swap_player (snd (deploy_troop_from_hand
      (fst (start_phase (fst (new_Game zeros)) 1 zeros)) 1 0 HQ)))"
  by (intro reachable.intros)

lemma sample_hand:
  "hand (player sample_game 1) = [marines, march]"
  "hand (player crowded_game 1) = [marines, march]"
  by (simp_all add: player_def sample_game_def crowded_game_def sample_player_def)

lemma crowded_hq:
  "zones crowded_game HQ = Some \<lparr>zid = HQ, capacity = 2, units = [marines_in_hq, marines_in_hq]\<rparr>"
  by (simp add: crowded_game_def)

subsection \<open>How many cards a draw moves\<close>

lemma draw_one_progress:
  assumes "deck p \<noteq> [] \<or> discard p \<noteq> []"
  shows "length (hand (fst (draw_one p r))) = Suc (length (hand p))
    \<and> Suc (length (deck (fst (draw_one p r))) + length (discard (fst (draw_one p r))))
        = length (deck p) + length (discard p)"
proof (cases "deck p = []")
  case True
  then have nd: "discard p \<noteq> []" using assms by simp
  from draw_one_after_reshuffle[OF True this, of r]
  obtain d where d: "mset d = mset (discard p)" "d \<noteq> []"
    "fst (draw_one p r) = p\<lparr>deck := butlast d, discard := [], hand := hand p @ [last d]\<rparr>"
    by blast
  have "length d = length (discard p)" using d(1) by (rule mset_eq_length)
  then show ?thesis using d(2,3) True nd by simp
next
  case False
  then show ?thesis by (simp add: draw_one_from_deck)
qed

lemma draw_one_hand: "\<exists>cs. hand (fst (draw_one p r)) = hand p @ cs"
  by (simp add: draw_one_def case_prod_beta draw_top_def reshuffle_fixed)

lemma draw_loop_hand: "\<exists>cs. hand (fst (draw_loop k p r)) = hand p @ cs"
proof (induction k arbitrary: p r)
  case 0
  show ?case by simp
next
  case (Suc k)
  obtain as where a: "hand (fst (draw_one p r)) = hand p @ as"
    using draw_one_hand by blast
  obtain bs where "hand (fst (draw_loop k (fst (draw_one p r)) (snd (draw_one p r))))
      = hand (fst (draw_one p r)) @ bs"
    using Suc.IH by blast
  then have "hand (fst (draw_loop (Suc k) p r)) = hand p @ (as @ bs)"
    using a by (simp add: case_prod_beta)
  then show ?case by blast
qed

lemma draw_loop_count:
  "length (hand (fst (draw_loop k p r)))
     = length (hand p) + min k (length (deck p) + length (discard p))"
proof (induction k arbitrary: p r)
  case 0
  show ?case by simp
next
  case (Suc k)
  show ?case
  proof (cases "deck p \<noteq> [] \<or> discard p \<noteq> []")
    case True
    let ?q = "fst (draw_one p r)"
    have h: "length (hand ?q) = Suc (length (hand p))"
      and "Suc (length (deck ?q) + length (discard ?q)) = length (deck p) + length (discard p)"
      using draw_one_progress[OF True, of r] by simp_all
    then have "min (Suc k) (length (deck p) + length (discard p))
        = Suc (min k (length (deck ?q) + length (discard ?q)))"
      by (metis min_Suc_Suc)
    moreover have "length (hand (fst (draw_loop k ?q (snd (draw_one p r)))))
        = length (hand ?q) + min k (length (deck ?q) + length (discard ?q))"
      by (rule Suc.IH)
    moreover have "draw_loop (Suc k) p r = draw_loop k ?q (snd (draw_one p r))"
      by (simp add: case_prod_beta)
    ultimately show ?thesis using h by simp
  next
    case False
    then have e: "deck p = []" "discard p = []" by simp_all
    then have "draw_loop (Suc k) p r = (p, r)" by (rule draw_loop_nothing_left)
    then show ?thesis using e by (simp del: draw_loop.simps)
  qed
qed

lemma draw_loop_from_deck:
  "k \<le> length (deck p) \<Longrightarrow>
   draw_loop k p r =
     (p\<lparr>hand := hand p @ rev (drop (length (deck p) - k) (deck p)),
        deck := take (length (deck p) - k) (deck p)\<rparr>, r)"
proof (induction k arbitrary: p)
  case 0
  show ?case by simp
next
  case (Suc k)
  then have ne: "deck p \<noteq> []" by auto
  then obtain ys y where D: "deck p = ys @ [y]" by (metis append_butlast_last_id)
  let ?q = "p\<lparr>hand := hand p @ [last (deck p)], deck := butlast (deck p)\<rparr>"
  have "k \<le> length (deck ?q)" using Suc.prems by simp
  then have "draw_loop k ?q r =
     (?q\<lparr>hand := hand ?q @ rev (drop (length (deck ?q) - k) (deck ?q)),
        deck := take (length (deck ?q) - k) (deck ?q)\<rparr>, r)"
    by (rule Suc.IH)
  then show ?case using ne D by (simp add: draw_one_from_deck)
qed

lemma draw_loop_funpow:
  "draw_loop k p r = ((\<lambda>(q, s). draw_one q s) ^^ k) (p, r)"
proof (induction k arbitrary: p r)
  case 0
  show ?case by simp
next
  case (Suc k)
  obtain q s where d: "draw_one p r = (q, s)" by (cases "draw_one p r")
  then have "draw_loop (Suc k) p r = ((\<lambda>(q, s). draw_one q s) ^^ k) (q, s)"
    using Suc.IH[of q s] by simp
  also have "\<dots> = ((\<lambda>(q, s). draw_one q s) ^^ k) ((\<lambda>(q, s). draw_one q s) (p, r))"
    using d by simp
  also have "\<dots> = ((\<lambda>(q, s). draw_one q s) ^^ Suc k) (p, r)"
    by (simp only: funpow_Suc_right o_apply)
  finally show ?case .
qed

section \<open>The claims\<close>

subsection \<open>The win check\<close>

text \<open>
  C1, as the claim states it, fails: in \<open>both_down\<close> the morale of both players is at
  most 0, and the win check reports player 2, not player 1.
\<close>

theorem C1_both_down_not_player_1:
  "morale (p1 both_down) \<le> 0 \<and> morale (p2 both_down) \<le> 0
   \<and> fst (game_over both_down) \<noteq> Some 1"
  by (simp add: both_down_def game_over_def new_PlayerState_def)

text \<open>
  C1, amended: in every state in which the morale of both players is at most 0, the win
  check reports player 2 as the winner (the morale of player 1 is tested first, and a
  player whose morale is spent loses). The result is a function of the state, so it is
  the same at every evaluation.
\<close>

theorem C1_both_down_player_2:
  "morale (p1 g) \<le> 0 \<Longrightarrow> morale (p2 g) \<le> 0 \<Longrightarrow> fst (game_over g) = Some 2"
  by (simp add: game_over_def)

theorem C1_both_down_player_2_witness:
  "morale (p1 both_down) \<le> 0 \<and> morale (p2 both_down) \<le> 0
   \<and> fst (game_over both_down) = Some 2"
  using C1_both_down_player_2 [of both_down]
  by (simp add: both_down_def new_PlayerState_def)

text \<open>
  C2: a winner reported by the win check is player 1 or player 2, and the morale of the
  other player is at most 0; no winner is reported exactly when the morale of both
  players is positive; the state after the check is the state before it.
\<close>

theorem C2_game_over:
  "(\<forall>w. fst (game_over g) = Some w \<longrightarrow>
         (w = 1 \<or> w = 2) \<and> morale (player g (other_pid w)) \<le> 0)
   \<and> (fst (game_over g) = None \<longleftrightarrow> 0 < morale (p1 g) \<and> 0 < morale (p2 g))
   \<and> snd (game_over g) = g"
  by (auto simp: game_over_def player_def other_pid_def)

theorem C2_game_over_witness:
  "fst (game_over both_down) = Some 2
   \<and> morale (player both_down (other_pid 2)) \<le> 0
   \<and> fst (game_over sample_game) = None
   \<and> 0 < morale (p1 sample_game) \<and> 0 < morale (p2 sample_game)
   \<and> snd (game_over both_down) = both_down"
proof -
  have a: "fst (game_over both_down) = Some 2"
    by (simp add: both_down_def game_over_def new_PlayerState_def)
  have b: "0 < morale (p1 sample_game) \<and> 0 < morale (p2 sample_game)"
    by (simp add: sample_game_def sample_player_def new_PlayerState_def)
  from C2_game_over [of both_down] a
  have "morale (player both_down (other_pid 2)) \<le> 0 \<and> snd (game_over both_down) = both_down"
    by blast
  moreover from C2_game_over [of sample_game] b
  have "fst (game_over sample_game) = None" by blast
  ultimately show ?thesis using a b by blast
qed

subsection \<open>Zone capacity\<close>

text \<open>
  C3: \<open>has_space\<close> holds exactly when a zone has fewer units than its capacity. A
  newly constructed game keeps every zone within its capacity, and so does the state
  after the start phase, after a draw and after a deployment of any state that does.
  A deployment that changes the zones at all found space in the target zone and appended
  one unit to it. Hence no zone of a reachable state exceeds its capacity.
\<close>

theorem C3_zone_capacity:
  "(has_space zn \<longleftrightarrow> int (length (units zn)) < capacity zn)
   \<and> zones_ok (fst (new_Game r0))
   \<and> (zones_ok g \<longrightarrow> zones_ok (fst (start_phase g n r)))
   \<and> (zones_ok g \<longrightarrow> zones_ok (fst (draw_for g n k r)))
   \<and> (zones_ok g \<longrightarrow> zones_ok (snd (deploy_troop_from_hand g n hand_index z)))
   \<and> (zones (snd (deploy_troop_from_hand g n hand_index z)) \<noteq> zones g \<longrightarrow>
        (\<exists>zn' u. zones g z = Some zn' \<and> has_space zn'
           \<and> zones (snd (deploy_troop_from_hand g n hand_index z))
               = (zones g)(z \<mapsto> zn'\<lparr>units := units zn' @ [u]\<rparr>)))
   \<and> (reachable g \<longrightarrow>
        (\<forall>z' zn'. zones g z' = Some zn' \<longrightarrow> int (length (units zn')) \<le> capacity zn'))"
proof -
  have "has_space zn \<longleftrightarrow> int (length (units zn)) < capacity zn"
    by (simp add: has_space_def)
  moreover have "zones_ok (fst (new_Game r0))" by (rule new_Game_zones_ok)
  moreover have "zones_ok g \<longrightarrow> zones_ok (fst (start_phase g n r))"
    by (simp add: start_phase_zones_ok)
  moreover have "zones_ok g \<longrightarrow> zones_ok (fst (draw_for g n k r))"
    by (simp add: zones_ok_def draw_for_fields)
  moreover have "zones_ok g \<longrightarrow> zones_ok (snd (deploy_troop_from_hand g n hand_index z))"
    by (simp add: deploy_zones_ok)
  moreover have "zones (snd (deploy_troop_from_hand g n hand_index z)) \<noteq> zones g \<longrightarrow>
        (\<exists>zn' u. zones g z = Some zn' \<and> has_space zn'
           \<and> zones (snd (deploy_troop_from_hand g n hand_index z))
               = (zones g)(z \<mapsto> zn'\<lparr>units := units zn' @ [u]\<rparr>))"
    using deploy_changes_zones by blast
  moreover have "reachable g \<longrightarrow>
        (\<forall>z' zn'. zones g z' = Some zn' \<longrightarrow> int (length (units zn')) \<le> capacity zn')"
    using reachable_zones_ok[of g] by (simp add: zones_ok_def)
  ultimately show ?thesis by blast
qed

theorem C3_zone_capacity_witness:
  "zones_ok sample_game
   \<and> zones_ok (fst (start_phase sample_game 1 zeros))
   \<and> zones_ok (fst (draw_for sample_game 1 2 zeros))
   \<and> zones_ok (snd (deploy_troop_from_hand sample_game 1 0 HQ))
   \<and> zones (snd (deploy_troop_from_hand sample_game 1 0 HQ)) \<noteq> zones sample_game
   \<and> has_space (new_zone HQ 2)
   \<and> reachable (fst (new_Game zeros))
   \<and> zones (fst (new_Game zeros)) HQ = Some (new_zone HQ 2)
   \<and> int (length (units (new_zone HQ 2))) \<le> capacity (new_zone HQ 2)"
proof -
  note c3 = C3_zone_capacity [of "new_zone HQ 2" zeros sample_game 1 zeros 2 0 HQ]
  note c3' = C3_zone_capacity [of "new_zone HQ 2" zeros "fst (new_Game zeros)" 1 zeros 2 0 HQ]
  have d: "zones (snd (deploy_troop_from_hand sample_game 1 0 HQ)) \<noteq> zones sample_game"
  proof
    assume "zones (snd (deploy_troop_from_hand sample_game 1 0 HQ)) = zones sample_game"
    then have "zones (snd (deploy_troop_from_hand sample_game 1 0 HQ)) HQ = zones sample_game HQ"
      by simp
    then show False by (simp add: sample_deploy_zones sample_hq new_zone_def)
  qed
  have h: "has_space (new_zone HQ 2)"
    using c3 by (simp add: new_zone_def)
  have n: "zones (fst (new_Game zeros)) HQ = Some (new_zone HQ 2)"
    by (simp add: new_Game_fields initial_zones_def)
  have "int (length (units (new_zone HQ 2))) \<le> capacity (new_zone HQ 2)"
    using c3' n r_new[of zeros] by blast
  then show ?thesis
    using c3 sample_zones_ok d h n r_new[of zeros] by blast
qed

subsection \<open>Conservation of cards\<close>

text \<open>
  C4: the multiset of the cards in a player's deck, hand and discard is the same after a
  draw, after the start phase and after a deployment (whether it succeeds, fails or
  raises) as before, for both players. After construction it is the thirty cards of two
  copies of the base deck, and so it is in every reachable state.
\<close>

theorem C4_cards_conserved:
  "cards_of (fst (draw p k r)) = cards_of p
   \<and> cards_of (p1 (fst (draw_for g n k r))) = cards_of (p1 g)
   \<and> cards_of (p2 (fst (draw_for g n k r))) = cards_of (p2 g)
   \<and> cards_of (p1 (fst (start_phase g n r))) = cards_of (p1 g)
   \<and> cards_of (p2 (fst (start_phase g n r))) = cards_of (p2 g)
   \<and> cards_of (p1 (snd (deploy_troop_from_hand g n hand_index z))) = cards_of (p1 g)
   \<and> cards_of (p2 (snd (deploy_troop_from_hand g n hand_index z))) = cards_of (p2 g)
   \<and> cards_of (p1 (fst (new_Game r))) = mset (base_deck @ base_deck)
   \<and> cards_of (p2 (fst (new_Game r))) = mset (base_deck @ base_deck)
   \<and> (reachable g \<longrightarrow>
        cards_of (p1 g) = mset (base_deck @ base_deck)
        \<and> cards_of (p2 g) = mset (base_deck @ base_deck))"
proof -
  have "cards_of (fst (draw p k r)) = cards_of p" by (rule draw_cards)
  moreover have "cards_of (p1 (fst (draw_for g n k r))) = cards_of (p1 g)"
    and "cards_of (p2 (fst (draw_for g n k r))) = cards_of (p2 g)"
    by (simp_all add: draw_for_fields draw_cards)
  moreover have "cards_of (p1 (fst (start_phase g n r))) = cards_of (p1 g)"
    and "cards_of (p2 (fst (start_phase g n r))) = cards_of (p2 g)"
    by (rule start_phase_cards)+
  moreover have "cards_of (p1 (snd (deploy_troop_from_hand g n hand_index z))) = cards_of (p1 g)"
    and "cards_of (p2 (snd (deploy_troop_from_hand g n hand_index z))) = cards_of (p2 g)"
    using deploy_cards[of g n hand_index z] by simp_all
  moreover have "cards_of (p1 (fst (new_Game r))) = mset (base_deck @ base_deck)"
    and "cards_of (p2 (fst (new_Game r))) = mset (base_deck @ base_deck)"
    by (rule new_Game_cards)+
  moreover have "reachable g \<longrightarrow>
        cards_of (p1 g) = mset (base_deck @ base_deck)
        \<and> cards_of (p2 g) = mset (base_deck @ base_deck)"
    using reachable_cards by blast
  ultimately show ?thesis by blast
qed

theorem C4_cards_conserved_witness:
  "cards_of (fst (draw spent_player 2 zeros)) = cards_of spent_player
   \<and> cards_of (p1 (snd (deploy_troop_from_hand sample_game 1 0 HQ))) = cards_of sample_player
   \<and> reachable (swap_player (snd (deploy_troop_from_hand
        (fst (start_phase (fst (new_Game zeros)) 1 zeros)) 1 0 HQ)))
   \<and> cards_of (p1 (swap_player (snd (deploy_troop_from_hand
        (fst (start_phase (fst (new_Game zeros)) 1 zeros)) 1 0 HQ))))
      = mset (base_deck @ base_deck)"
proof -
  have s: "p1 sample_game = sample_player" by (simp add: sample_game_def)
  show ?thesis
    using C4_cards_conserved [of spent_player 2 zeros sample_game 1 0 HQ]
      C4_cards_conserved [of spent_player 2 zeros
        "swap_player (snd (deploy_troop_from_hand
           (fst (start_phase (fst (new_Game zeros)) 1 zeros)) 1 0 HQ))" 1 0 HQ]
      sample_reachable s
    by simp
qed

subsection \<open>Command points\<close>

text \<open>
  C5: the start phase of a player leaves that player with command points
  \<open>min 5 (cp + 2)\<close>, whatever \<open>cp\<close> was before: never more than 5; 5 from 4, and
  5 from 5.
\<close>

theorem C5_gain_resources:
  "cp (player (fst (start_phase g n r)) n) = min 5 (cp (player g n) + 2)
   \<and> cp (player (fst (start_phase g n r)) n) \<le> 5
   \<and> (cp (player g n) = 4 \<longrightarrow> cp (player (fst (start_phase g n r)) n) = 5)
   \<and> (cp (player g n) = 5 \<longrightarrow> cp (player (fst (start_phase g n r)) n) = 5)"
  by (simp add: start_phase_player draw_fixed)

theorem C5_gain_resources_witness:
  "cp (player sample_game 1) = 4
   \<and> cp (player (fst (start_phase sample_game 1 zeros)) 1) = 5
   \<and> cp (player (sample_game\<lparr>p2 := (new_PlayerState 2)\<lparr>cp := 5\<rparr>\<rparr>) 2) = 5
   \<and> cp (player (fst (start_phase
         (sample_game\<lparr>p2 := (new_PlayerState 2)\<lparr>cp := 5\<rparr>\<rparr>) 2 zeros)) 2) = 5"
proof -
  have a: "cp (player sample_game 1) = 4"
    by (simp add: player_def sample_game_def sample_player_def)
  have b: "cp (player (sample_game\<lparr>p2 := (new_PlayerState 2)\<lparr>cp := 5\<rparr>\<rparr>) 2) = 5"
    by (simp add: player_def)
  show ?thesis
    using a b C5_gain_resources [of sample_game 1 zeros]
      C5_gain_resources [of "sample_game\<lparr>p2 := (new_PlayerState 2)\<lparr>cp := 5\<rparr>\<rparr>" 2 zeros]
    by blast
qed

subsection \<open>Drawing\<close>

text \<open>
  C6: \<open>draw p n\<close> is \<open>n\<close> single draws in a row (none for a negative \<open>n\<close>). A single
  draw from a non-empty deck moves its last card to the end of the hand. A single draw
  from an empty deck with a non-empty discard first makes a permutation of the discard
  the deck and empties the discard, and then moves the last card of that deck to the
  hand. With the deck and the discard both empty, a draw of any number returns the player
  unchanged. With \<open>n\<close> at most the size of the deck, the last \<open>n\<close> cards of the deck go
  to the hand, the top first. In general the hand grows at its end by
  \<open>min n (size of the deck + size of the discard)\<close> cards.
\<close>

theorem C6_draw:
  "draw p n r = ((\<lambda>(q, s). draw_one q s) ^^ nat n) (p, r)
   \<and> (deck p \<noteq> [] \<longrightarrow>
        draw_one p r = (p\<lparr>hand := hand p @ [last (deck p)], deck := butlast (deck p)\<rparr>, r))
   \<and> (deck p = [] \<and> discard p \<noteq> [] \<longrightarrow>
        (\<exists>d. mset d = mset (discard p) \<and> set d = set (discard p)
           \<and> fst (reshuffle p r) = p\<lparr>deck := d, discard := []\<rparr>
           \<and> fst (draw_one p r)
               = p\<lparr>deck := butlast d, discard := [], hand := hand p @ [last d]\<rparr>))
   \<and> (deck p = [] \<and> discard p = [] \<longrightarrow> draw p n r = (p, r))
   \<and> (nat n \<le> length (deck p) \<longrightarrow>
        draw p n r =
          (p\<lparr>hand := hand p @ rev (drop (length (deck p) - nat n) (deck p)),
             deck := take (length (deck p) - nat n) (deck p)\<rparr>, r))
   \<and> (\<exists>cs. hand (fst (draw p n r)) = hand p @ cs
         \<and> length cs = min (nat n) (length (deck p) + length (discard p)))"
proof -
  have "draw p n r = ((\<lambda>(q, s). draw_one q s) ^^ nat n) (p, r)"
    by (simp add: draw_def draw_loop_funpow)
  moreover have "deck p \<noteq> [] \<longrightarrow>
        draw_one p r = (p\<lparr>hand := hand p @ [last (deck p)], deck := butlast (deck p)\<rparr>, r)"
    by (simp add: draw_one_from_deck)
  moreover have "deck p = [] \<and> discard p \<noteq> [] \<longrightarrow>
        (\<exists>d. mset d = mset (discard p) \<and> set d = set (discard p)
           \<and> fst (reshuffle p r) = p\<lparr>deck := d, discard := []\<rparr>
           \<and> fst (draw_one p r)
               = p\<lparr>deck := butlast d, discard := [], hand := hand p @ [last d]\<rparr>)"
  proof
    assume a: "deck p = [] \<and> discard p \<noteq> []"
    then obtain d where d: "mset d = mset (discard p)"
      "fst (reshuffle p r) = p\<lparr>deck := d, discard := []\<rparr>"
      "fst (draw_one p r) = p\<lparr>deck := butlast d, discard := [], hand := hand p @ [last d]\<rparr>"
      using draw_one_after_reshuffle[of p r] by blast
    from d(1) have "set d = set (discard p)" by (rule mset_eq_setD)
    with d show "\<exists>d. mset d = mset (discard p) \<and> set d = set (discard p)
           \<and> fst (reshuffle p r) = p\<lparr>deck := d, discard := []\<rparr>
           \<and> fst (draw_one p r)
               = p\<lparr>deck := butlast d, discard := [], hand := hand p @ [last d]\<rparr>"
      by blast
  qed
  moreover have "deck p = [] \<and> discard p = [] \<longrightarrow> draw p n r = (p, r)"
    by (simp add: draw_def draw_loop_nothing_left)
  moreover have "nat n \<le> length (deck p) \<longrightarrow>
        draw p n r =
          (p\<lparr>hand := hand p @ rev (drop (length (deck p) - nat n) (deck p)),
             deck := take (length (deck p) - nat n) (deck p)\<rparr>, r)"
    by (simp add: draw_def draw_loop_from_deck)
  moreover have "\<exists>cs. hand (fst (draw p n r)) = hand p @ cs
         \<and> length cs = min (nat n) (length (deck p) + length (discard p))"
  proof -
    obtain cs where c: "hand (fst (draw_loop (nat n) p r)) = hand p @ cs"
      using draw_loop_hand by blast
    then have "length (hand p) + length cs
        = length (hand p) + min (nat n) (length (deck p) + length (discard p))"
      using draw_loop_count[of "nat n" p r] by simp
    then show ?thesis using c by (simp add: draw_def)
  qed
  ultimately show ?thesis by blast
qed

theorem C6_draw_witness:
  "draw sample_player 1 zeros
     = (sample_player\<lparr>hand := [marines, march, scouts], deck := [booby]\<rparr>, zeros)
   \<and> (\<exists>d. mset d = mset [marines, march, heavy]
         \<and> fst (reshuffle spent_player zeros) = spent_player\<lparr>deck := d, discard := []\<rparr>
         \<and> fst (draw_one spent_player zeros)
             = spent_player\<lparr>deck := butlast d, discard := [], hand := [elite, last d]\<rparr>)
   \<and> draw (new_PlayerState 1) 3 zeros = (new_PlayerState 1, zeros)
   \<and> length (hand (fst (draw spent_player 7 zeros))) = 4"
proof -
  have a: "deck sample_player \<noteq> []" "nat 1 \<le> length (deck sample_player)"
    "deck sample_player = [booby, scouts]" "hand sample_player = [marines, march]"
    by (simp_all add: sample_player_def)
  have b: "deck spent_player = [] \<and> discard spent_player \<noteq> []"
    "discard spent_player = [marines, march, heavy]" "hand spent_player = [elite]"
    by (simp_all add: spent_player_def)
  have c: "deck (new_PlayerState 1) = [] \<and> discard (new_PlayerState 1) = []"
    by (simp add: new_PlayerState_def)
  have "draw sample_player 1 zeros
     = (sample_player\<lparr>hand := [marines, march, scouts], deck := [booby]\<rparr>, zeros)"
    using C6_draw [of sample_player 1 zeros] a by simp
  moreover have "\<exists>d. mset d = mset [marines, march, heavy]
         \<and> fst (reshuffle spent_player zeros) = spent_player\<lparr>deck := d, discard := []\<rparr>
         \<and> fst (draw_one spent_player zeros)
             = spent_player\<lparr>deck := butlast d, discard := [], hand := [elite, last d]\<rparr>"
    using C6_draw [of spent_player 7 zeros] b by auto
  moreover have "draw (new_PlayerState 1) 3 zeros = (new_PlayerState 1, zeros)"
    using C6_draw [of "new_PlayerState 1" 3 zeros] c by blast
  moreover have "length (hand (fst (draw spent_player 7 zeros))) = 4"
  proof -
    obtain cs where "hand (fst (draw spent_player 7 zeros)) = hand spent_player @ cs"
      "length cs = min (nat 7) (length (deck spent_player) + length (discard spent_player))"
      using C6_draw [of spent_player 7 zeros] by blast
    then show ?thesis by (simp add: spent_player_def)
  qed
  ultimately show ?thesis by blast
qed

subsection \<open>Deployment\<close>

text \<open>
  C7: when the hand index is negative or not below the size of the hand, or the card at
  the index is not a troop card, or the target zone is in the dictionary and has no
  space, the deployment returns False and leaves the whole state as it was (so the hand
  and the discard of the player and the units of the target zone are unchanged).
\<close>

theorem C7_failed_deploy:
  assumes "hand_index < 0 \<or> hand_index \<ge> int (length (hand (player g n)))
           \<or> \<not> is_TroopCard (hand (player g n) ! nat hand_index)
           \<or> (\<exists>zn. zones g z = Some zn \<and> \<not> has_space zn)"
  shows "deploy_troop_from_hand g n hand_index z = (Inr False, g)
         \<and> hand (player (snd (deploy_troop_from_hand g n hand_index z)) n) = hand (player g n)
         \<and> discard (player (snd (deploy_troop_from_hand g n hand_index z)) n)
             = discard (player g n)
         \<and> zones (snd (deploy_troop_from_hand g n hand_index z)) z = zones g z"
proof -
  have "deploy_troop_from_hand g n hand_index z = (Inr False, g)"
  proof (cases rule: deploy_cases[of g n hand_index z])
    case failed
    then show ?thesis .
  next
    case raised
    then have "zone_at g z = Inl KeyError \<and> zones g z = None"
      using assms
      by (auto simp: deploy_troop_from_hand_def Let_def zone_at_def
            split: if_splits Card.splits option.splits)
    then show ?thesis
      using assms raised
      by (auto simp: deploy_troop_from_hand_def Let_def
            split: if_splits Card.splits)
  next
    case (deployed i nm t st zn)
    then show ?thesis using assms by auto
  qed
  then show ?thesis by simp
qed

theorem C7_failed_deploy_witness:
  "deploy_troop_from_hand sample_game 1 2 HQ = (Inr False, sample_game)
   \<and> deploy_troop_from_hand sample_game 1 (- 1) HQ = (Inr False, sample_game)
   \<and> deploy_troop_from_hand sample_game 1 1 HQ = (Inr False, sample_game)
   \<and> deploy_troop_from_hand crowded_game 1 0 HQ = (Inr False, crowded_game)"
proof -
  have a: "2 \<ge> int (length (hand (player sample_game 1)))"
    by (simp add: sample_hand)
  have b: "\<not> is_TroopCard (hand (player sample_game 1) ! nat 1)"
    by (simp add: sample_hand march_def)
  have c: "\<exists>zn. zones crowded_game HQ = Some zn \<and> \<not> has_space zn"
    by (simp add: crowded_hq has_space_def)
  show ?thesis
    using C7_failed_deploy [of 2 sample_game 1 HQ] a
      C7_failed_deploy [of "- 1" sample_game 1 HQ]
      C7_failed_deploy [of 1 sample_game 1 HQ] b
      C7_failed_deploy [of 0 crowded_game 1 HQ] c
    by simp
qed

text \<open>
  C8: when the hand index is within the hand, the card there is a troop card and the
  target zone has space, the deployment returns True; the target zone gains at its end
  exactly one unit, made from that card, owned by the player, standing in the target
  zone, with the cohesion and the maximal ammunition of the card's statistics and with
  its attack flag cleared; no other zone changes; the card is removed from the hand at
  the index and appended to the discard, so the hand is one shorter and the discard one
  longer; the deck is untouched.
\<close>

theorem C8_successful_deploy:
  assumes "0 \<le> hand_index" "hand_index < int (length (hand (player g n)))"
    and "hand (player g n) ! nat hand_index = TroopCard i nm t st"
    and "zones g z = Some zn" "has_space zn"
  shows "\<exists>g' u. deploy_troop_from_hand g n hand_index z = (Inr True, g')
     \<and> zones g' = (zones g)(z \<mapsto> zn\<lparr>units := units zn @ [u]\<rparr>)
     \<and> unit_card u = TroopCard i nm t st \<and> owner u = pid (player g n) \<and> zone u = z
     \<and> unit_coh u = coh st \<and> ammo u = max_ammo st \<and> attacked_this_turn u = False
     \<and> hand (player g' n)
         = take (nat hand_index) (hand (player g n)) @ drop (Suc (nat hand_index)) (hand (player g n))
     \<and> discard (player g' n) = discard (player g n) @ [TroopCard i nm t st]
     \<and> deck (player g' n) = deck (player g n)
     \<and> length (hand (player g' n)) + 1 = length (hand (player g n))
     \<and> length (discard (player g' n)) = length (discard (player g n)) + 1"
proof -
  let ?u = "new_unit (TroopCard i nm t st) st (pid (player g n)) z"
  let ?p = "(player g n)\<lparr>discard := discard (player g n) @ [TroopCard i nm t st],
                         hand := pop_at (nat hand_index) (hand (player g n))\<rparr>"
  let ?g = "set_player (g\<lparr>zones := (zones g)(z \<mapsto> zn\<lparr>units := units zn @ [?u]\<rparr>)\<rparr>) n ?p"
  have lt: "nat hand_index < length (hand (player g n))" using assms(1,2) by linarith
  have "deploy_troop_from_hand g n hand_index z = (Inr True, ?g)"
    using assms by (rule deploy_done)
  moreover have "zones ?g = (zones g)(z \<mapsto> zn\<lparr>units := units zn @ [?u]\<rparr>)"
    by (simp add: set_player_fields)
  moreover have "unit_card ?u = TroopCard i nm t st" "owner ?u = pid (player g n)"
    "zone ?u = z" "unit_coh ?u = coh st" "ammo ?u = max_ammo st"
    "attacked_this_turn ?u = False"
    by (simp_all add: new_unit_def)
  moreover have "hand (player ?g n)
      = take (nat hand_index) (hand (player g n)) @ drop (Suc (nat hand_index)) (hand (player g n))"
    by (simp add: set_player_fields pop_at_def)
  moreover have "discard (player ?g n) = discard (player g n) @ [TroopCard i nm t st]"
    by (simp add: set_player_fields)
  moreover have "deck (player ?g n) = deck (player g n)"
    by (simp add: set_player_fields)
  moreover have "length (hand (player ?g n)) + 1 = length (hand (player g n))"
    using lt by (simp add: set_player_fields pop_at_def)
  moreover have "length (discard (player ?g n)) = length (discard (player g n)) + 1"
    by (simp add: set_player_fields)
  ultimately show ?thesis
    by (intro exI[of _ ?g] exI[of _ ?u] conjI)
qed

theorem C8_successful_deploy_witness:
  "\<exists>g' u. deploy_troop_from_hand sample_game 1 0 HQ = (Inr True, g')
     \<and> zones g' HQ = Some \<lparr>zid = HQ, capacity = 2, units = [u]\<rparr>
     \<and> u = marines_in_hq
     \<and> hand (player g' 1) = [march]
     \<and> discard (player g' 1) = [dig_in, marines]"
proof -
  have a: "hand (player sample_game 1) ! nat 0
      = TroopCard ''troop_marines'' ''Tactical Marines''
          ''+1 STR if another Infantry is in zone (not implemented yet).''
          \<lparr>str = 6, arm = 4, coh = 6, speed = 1, max_ammo = 0\<rparr>"
    by (simp add: sample_hand marines_def)
  have b: "(0::int) < int (length (hand (player sample_game 1)))"
    by (simp add: sample_hand)
  have c: "has_space (new_zone HQ 2)" by (simp add: has_space_def new_zone_def)
  have e: "pid (player sample_game 1) = 1" "discard (player sample_game 1) = [dig_in]"
    by (simp_all add: player_def sample_game_def sample_player_def)
  from C8_successful_deploy [OF order_refl b a sample_hq c]
  obtain g' u where
    "deploy_troop_from_hand sample_game 1 0 HQ = (Inr True, g')"
    "zones g' = (zones sample_game)(HQ \<mapsto> (new_zone HQ 2)\<lparr>units := units (new_zone HQ 2) @ [u]\<rparr>)"
    "unit_card u = marines" "owner u = 1" "zone u = HQ" "unit_coh u = 6" "ammo u = 0"
    "attacked_this_turn u = False"
    "hand (player g' 1) = [march]" "discard (player g' 1) = [dig_in, marines]"
    by (auto simp: sample_hand e marines_def)
  moreover from this have "u = marines_in_hq" by (simp add: marines_in_hq_def)
  ultimately show ?thesis by (auto simp: new_zone_def)
qed

subsection \<open>The end of a turn\<close>

text \<open>
  C9: the swap at the end of a turn makes the other player active: player 2 after
  player 1, and player 1 after player 2 (and after any other value). The turn counter
  grows by one exactly when the newly active player is player 1, and is unchanged
  otherwise. From turn 1 with player 1 active, one swap gives player 2 and turn 1, and a
  second swap gives player 1 and turn 2.
\<close>

theorem C9_turn_swap:
  "active_pid (swap_player g) = other_pid (active_pid g)
   \<and> (active_pid (swap_player g) = 1 \<or> active_pid (swap_player g) = 2)
   \<and> (active_pid g = 1 \<longrightarrow> active_pid (swap_player g) = 2 \<and> turn (swap_player g) = turn g)
   \<and> (active_pid g = 2 \<longrightarrow> active_pid (swap_player g) = 1 \<and> turn (swap_player g) = turn g + 1)
   \<and> turn (swap_player g) = (if active_pid (swap_player g) = 1 then turn g + 1 else turn g)
   \<and> (turn g = 1 \<and> active_pid g = 1 \<longrightarrow>
        active_pid (swap_player g) = 2 \<and> turn (swap_player g) = 1
        \<and> active_pid (swap_player (swap_player g)) = 1
        \<and> turn (swap_player (swap_player g)) = 2)"
  by (simp add: swap_player_fields other_pid_def)

theorem C9_turn_swap_witness:
  "turn sample_game = 1 \<and> active_pid sample_game = 1
   \<and> active_pid (swap_player sample_game) = 2 \<and> turn (swap_player sample_game) = 1
   \<and> active_pid (swap_player (swap_player sample_game)) = 1
   \<and> turn (swap_player (swap_player sample_game)) = turn (swap_player sample_game) + 1
   \<and> turn (swap_player (swap_player sample_game)) = 2"
proof -
  have a: "turn sample_game = 1 \<and> active_pid sample_game = 1"
    by (simp add: sample_game_def)
  then have b: "active_pid (swap_player sample_game) = 2"
    using C9_turn_swap [of sample_game] by blast
  have "active_pid (swap_player (swap_player sample_game)) = 1
      \<and> turn (swap_player (swap_player sample_game)) = turn (swap_player sample_game) + 1"
    using b C9_turn_swap [of "swap_player sample_game"] by blast
  then show ?thesis using a C9_turn_swap [of sample_game] by blast
qed

subsection \<open>Morale\<close>

text \<open>
  C10: the morale of both players is 25 in a newly constructed game, and the start
  phase, a draw, a deployment and the swap of the active player all leave the morale of
  both players as it was. Hence in every reachable state both morales are 25 and the
  win check reports no winner.
\<close>

theorem C10_morale_never_changes:
  "morale (p1 (fst (new_Game r))) = 25 \<and> morale (p2 (fst (new_Game r))) = 25
   \<and> morale (fst (draw p k r)) = morale p
   \<and> morale (p1 (fst (draw_for g n k r))) = morale (p1 g)
   \<and> morale (p2 (fst (draw_for g n k r))) = morale (p2 g)
   \<and> morale (p1 (fst (start_phase g n r))) = morale (p1 g)
   \<and> morale (p2 (fst (start_phase g n r))) = morale (p2 g)
   \<and> morale (p1 (snd (deploy_troop_from_hand g n hand_index z))) = morale (p1 g)
   \<and> morale (p2 (snd (deploy_troop_from_hand g n hand_index z))) = morale (p2 g)
   \<and> morale (p1 (swap_player g)) = morale (p1 g)
   \<and> morale (p2 (swap_player g)) = morale (p2 g)
   \<and> (reachable g \<longrightarrow>
        morale (p1 g) = 25 \<and> morale (p2 g) = 25 \<and> fst (game_over g) = None)"
proof -
  have "morale (p1 (fst (new_Game r))) = 25" "morale (p2 (fst (new_Game r))) = 25"
    by (rule new_Game_morale)+
  moreover have "morale (fst (draw p k r)) = morale p" by (rule draw_fixed)
  moreover have "morale (p1 (fst (draw_for g n k r))) = morale (p1 g)"
    "morale (p2 (fst (draw_for g n k r))) = morale (p2 g)"
    by (simp_all add: draw_for_fields draw_fixed)
  moreover have "morale (p1 (fst (start_phase g n r))) = morale (p1 g)"
    "morale (p2 (fst (start_phase g n r))) = morale (p2 g)"
    by (simp_all add: start_phase_p1 start_phase_p2 draw_fixed)
  moreover have "morale (p1 (snd (deploy_troop_from_hand g n hand_index z))) = morale (p1 g)"
    "morale (p2 (snd (deploy_troop_from_hand g n hand_index z))) = morale (p2 g)"
    using deploy_morale[of g n hand_index z] by simp_all
  moreover have "morale (p1 (swap_player g)) = morale (p1 g)"
    "morale (p2 (swap_player g)) = morale (p2 g)"
    by (simp_all add: swap_player_fields)
  moreover have "reachable g \<longrightarrow>
        morale (p1 g) = 25 \<and> morale (p2 g) = 25 \<and> fst (game_over g) = None"
    using reachable_morale[of g] by (simp add: game_over_def)
  ultimately show ?thesis by blast
qed

theorem C10_morale_never_changes_witness:
  "reachable (swap_player (snd (deploy_troop_from_hand
      (fst (start_phase (fst (new_Game zeros)) 1 zeros)) 1 0 HQ)))
   \<and> fst (game_over (swap_player (snd (deploy_troop_from_hand
      (fst (start_phase (fst (new_Game zeros)) 1 zeros)) 1 0 HQ)))) = None"
  using C10_morale_never_changes [of zeros sample_player 1
      "swap_player (snd (deploy_troop_from_hand
         (fst (start_phase (fst (new_Game zeros)) 1 zeros)) 1 0 HQ))" 1 0 HQ]
    sample_reachable
  by blast

end
